theory Spec2Isabelle
  imports Main "HOL-Library.Word"
begin

section \<open>Python values used by the token client\<close>

text \<open>
  A Python \<open>str\<close> is a list of code points; the model keeps the code points below 256,
  one \<^typ>\<open>char\<close> each, so a character from 128 on is a non-ASCII code point. A Python
  \<open>bytes\<close> object is a list of 8-bit words. Python integers are unbounded: \<^typ>\<open>int\<close>.
\<close>

type_synonym byte = "8 word"
type_synonym bytes = "byte list"

datatype py_error =
    UnicodeEncodeError
  | UnicodeDecodeError
  | StructError
  | ValueError
  | KeyError
  | IndexError

definition is_ascii :: "char \<Rightarrow> bool" where
  "is_ascii c = ((of_char c :: nat) < 128)"

definition byte_of_char :: "char \<Rightarrow> byte" where
  "byte_of_char c = of_nat (of_char c)"

definition char_of_byte :: "byte \<Rightarrow> char" where
  "char_of_byte b = char_of (unat b)"

text \<open>\<open>s.encode("ascii")\<close>: raises on a code point from 128 on.\<close>

definition encode_ascii :: "string \<Rightarrow> py_error + bytes" where
  "encode_ascii s = (if list_all is_ascii s then Inr (map byte_of_char s) else Inl UnicodeEncodeError)"

text \<open>\<open>b.decode("ascii")\<close>: raises on a byte from 128 on.\<close>

definition decode_ascii :: "bytes \<Rightarrow> py_error + string" where
  "decode_ascii b = (if list_all (\<lambda>x. unat x < 128) b then Inr (map char_of_byte b) else Inl UnicodeDecodeError)"

text \<open>\<open>s.ljust(width, " ")\<close>: pads on the right, leaves a longer string as it is.\<close>

definition ljust :: "nat \<Rightarrow> string \<Rightarrow> string" where
  "ljust width s = s @ replicate (width - length s) (CHR '' '')"

text \<open>The \<open>struct\<close> format \<open>Ns\<close>: exactly N bytes, cut or filled with NUL bytes.\<close>

definition pack_s :: "nat \<Rightarrow> bytes \<Rightarrow> bytes" where
  "pack_s n b = take n b @ replicate (n - length b) 0"

text \<open>The \<open>struct\<close> formats \<open>!I\<close>, \<open>!H\<close> and \<open>!h\<close>: big-endian, with a range check.\<close>

definition pack_I :: "int \<Rightarrow> py_error + bytes" where
  "pack_I n = (if 0 \<le> n \<and> n < 4294967296
     then Inr [of_int (n div 16777216), of_int (n div 65536), of_int (n div 256), of_int n]
     else Inl StructError)"

definition pack_H :: "int \<Rightarrow> py_error + bytes" where
  "pack_H n = (if 0 \<le> n \<and> n < 65536
     then Inr [of_int (n div 256), of_int n]
     else Inl StructError)"

definition pack_h :: "int \<Rightarrow> py_error + bytes" where
  "pack_h n = (if - 32768 \<le> n \<and> n < 32768
     then Inr [of_int (n div 256), of_int n]
     else Inl StructError)"

text \<open>\<open>int.from_bytes(b, "big")\<close>; the empty byte string gives 0.\<close>

definition int_from_bytes :: "bytes \<Rightarrow> nat" where
  "int_from_bytes b = foldl (\<lambda>acc x. acc * 256 + unat x) 0 b"

text \<open>\<open>struct.unpack("!H", b)[0]\<close>: the buffer must hold exactly two bytes.\<close>

definition unpack_H :: "bytes \<Rightarrow> py_error + nat" where
  "unpack_H b = (if length b = 2 then Inr (int_from_bytes b) else Inl StructError)"

text \<open>The slice \<open>b[i:j]\<close> for offsets that are not negative: it stops at the end of \<open>b\<close>.\<close>

definition slice :: "'a list \<Rightarrow> nat \<Rightarrow> nat \<Rightarrow> 'a list" where
  "slice xs i j = take (j - i) (drop i xs)"

text \<open>
  \<open>s.strip()\<close> removes the white space of \<open>str.isspace\<close> at both ends: below 256
  these are the code points 9 to 13, 28 to 32, 133 and 160.
\<close>

definition is_space :: "char \<Rightarrow> bool" where
  "is_space c = (let n = (of_char c :: nat) in
     (9 \<le> n \<and> n \<le> 13) \<or> (28 \<le> n \<and> n \<le> 32) \<or> n = 133 \<or> n = 160)"

definition strip :: "string \<Rightarrow> string" where
  "strip s = rev (dropWhile is_space (rev (dropWhile is_space s)))"

text \<open>\<open>s.split(sep)\<close> with a one-character separator: never an empty list.\<close>

fun split_on :: "char \<Rightarrow> string \<Rightarrow> string list" where
  "split_on sep [] = [] # []"
| "split_on sep (c # cs) =
     (if c = sep then [] # split_on sep cs
      else (case split_on sep cs of
              [] \<Rightarrow> [c] # []
            | w # ws \<Rightarrow> (c # w) # ws))"

text \<open>
  \<open>int(s)\<close> on a string: white space at both ends is dropped (here the code points 9 to
  13, 32, 133 and 160), then an optional sign, then decimal digits, where one underscore
  may stand between two digits. Anything else raises \<open>ValueError\<close>. The interpreter's
  limit on the number of digits of a literal is not part of the model.
\<close>

definition is_int_space :: "char \<Rightarrow> bool" where
  "is_int_space c = (let n = (of_char c :: nat) in
     (9 \<le> n \<and> n \<le> 13) \<or> n = 32 \<or> n = 133 \<or> n = 160)"

definition is_digit :: "char \<Rightarrow> bool" where
  "is_digit c = (let n = (of_char c :: nat) in 48 \<le> n \<and> n \<le> 57)"

definition digit_val :: "char \<Rightarrow> nat" where
  "digit_val c = of_char c - 48"

fun py_digits :: "nat \<Rightarrow> string \<Rightarrow> nat option" where
  "py_digits acc [] = Some acc"
| "py_digits acc [c] = (if is_digit c then Some (acc * 10 + digit_val c) else None)"
| "py_digits acc (c # d # ds) =
     (if c = CHR ''_''
      then (if is_digit d then py_digits (acc * 10 + digit_val d) ds else None)
      else if is_digit c then py_digits (acc * 10 + digit_val c) (d # ds)
      else None)"

definition py_unsigned :: "string \<Rightarrow> nat option" where
  "py_unsigned s = (case s of
       [] \<Rightarrow> None
     | d # ds \<Rightarrow> if is_digit d then py_digits (digit_val d) ds else None)"

definition py_int :: "string \<Rightarrow> py_error + int" where
  "py_int s =
     (let t = rev (dropWhile is_int_space (rev (dropWhile is_int_space s))) in
      case t of
        [] \<Rightarrow> Inl ValueError
      | c # cs \<Rightarrow>
          if c = CHR ''-'' then
            (case py_unsigned cs of None \<Rightarrow> Inl ValueError | Some v \<Rightarrow> Inr (- int v))
          else if c = CHR ''+'' then
            (case py_unsigned cs of None \<Rightarrow> Inl ValueError | Some v \<Rightarrow> Inr (int v))
          else
            (case py_unsigned t of None \<Rightarrow> Inl ValueError | Some v \<Rightarrow> Inr (int v)))"

text \<open>\<open>str(n)\<close> of an integer that is not negative, as the f-string formats the nonce.\<close>

definition digit_char :: "nat \<Rightarrow> char" where
  "digit_char d = char_of (48 + d)"

function py_str :: "nat \<Rightarrow> string" where
  "py_str n = (if n < 10 then [digit_char n] else py_str (n div 10) @ [digit_char (n mod 10)])"
  by pat_completeness auto
termination
  by (relation "measure id") auto

declare py_str.simps [simp del]

text \<open>The number that a string of digits denotes, read from the left.\<close>

definition decimal_value :: "nat \<Rightarrow> string \<Rightarrow> nat" where
  "decimal_value acc cs = foldl (\<lambda>a c. a * 10 + digit_val c) acc cs"

section \<open>Protocol constants\<close>

definition MESSAGE_TYPES :: "string \<Rightarrow> nat option" where
  "MESSAGE_TYPES = map_of
     [(''itr'', 1), (''itv'', 3), (''gtr'', 5), (''gtv'', 7), (''error'', 256)]"

definition ERROR_CODES :: "nat \<Rightarrow> string option" where
  "ERROR_CODES = map_of
     [(1, ''INVALID_MESSAGE_CODE''),
      (2, ''INCORRECT_MESSAGE_LENGTH''),
      (3, ''INVALID_PARAMETER''),
      (4, ''INVALID_SINGLE_TOKEN''),
      (5, ''ASCII_DECODE_ERROR'')]"

section \<open>Request encoders\<close>

definition create_individual_token_request_message :: "string \<Rightarrow> int \<Rightarrow> py_error + bytes" where
  "create_individual_token_request_message user_id nonce =
     (let user_id_padded = ljust 12 user_id in
      case encode_ascii user_id_padded of
        Inl e \<Rightarrow> Inl e
      | Inr b \<Rightarrow> (case pack_I nonce of
            Inl e \<Rightarrow> Inl e
          | Inr nb \<Rightarrow> Inr (pack_s 12 b @ nb)))"

text \<open>
  The unpacking \<open>user_id, nonce, token = sas.split(":")\<close> raises \<open>ValueError\<close> unless
  there are exactly three parts. The exceptions come in the order of the statements:
  the split, \<open>int(nonce)\<close>, the two \<open>encode\<close> calls, then \<open>struct.pack\<close>.
\<close>

definition create_individual_token_validation_message :: "string \<Rightarrow> py_error + bytes" where
  "create_individual_token_validation_message sas =
     (case split_on (CHR '':'') sas of
        [user_id, nonce, token] \<Rightarrow>
          (case py_int nonce of
             Inl e \<Rightarrow> Inl e
           | Inr n \<Rightarrow>
               (case encode_ascii (ljust 12 user_id) of
                  Inl e \<Rightarrow> Inl e
                | Inr user_id_padded \<Rightarrow>
                    (case encode_ascii token of
                       Inl e \<Rightarrow> Inl e
                     | Inr tok \<Rightarrow>
                         (case pack_I n of
                            Inl e \<Rightarrow> Inl e
                          | Inr nb \<Rightarrow> Inr (pack_s 12 user_id_padded @ nb @ pack_s 64 tok)))))
      | _ \<Rightarrow> Inl ValueError)"

text \<open>The loop \<open>for sas in sas_list: data += ...\<close> of both group encoders.\<close>

fun append_sas_bodies :: "bytes \<Rightarrow> string list \<Rightarrow> py_error + bytes" where
  "append_sas_bodies data [] = Inr data"
| "append_sas_bodies data (sas # sas_list) =
     (case create_individual_token_validation_message sas of
        Inl e \<Rightarrow> Inl e
      | Inr b \<Rightarrow> append_sas_bodies (data @ b) sas_list)"

definition create_group_token_request_message :: "int \<Rightarrow> string list \<Rightarrow> py_error + bytes" where
  "create_group_token_request_message N sas_list =
     (case pack_H N of
        Inl e \<Rightarrow> Inl e
      | Inr data \<Rightarrow> append_sas_bodies data sas_list)"

definition create_group_token_validation_message :: "string \<Rightarrow> py_error + bytes" where
  "create_group_token_validation_message gas =
     (let splitted_gas = split_on (CHR ''+'') gas in
      case encode_ascii (last splitted_gas) of
        Inl e \<Rightarrow> Inl e
      | Inr gas_token \<Rightarrow>
          (let sas_list = butlast splitted_gas in
           case pack_h (int (length sas_list)) of
             Inl e \<Rightarrow> Inl e
           | Inr data \<Rightarrow>
               (case append_sas_bodies data sas_list of
                  Inl e \<Rightarrow> Inl e
                | Inr data' \<Rightarrow> Inr (data' @ pack_s 64 gas_token))))"

section \<open>Reply decoder\<close>

definition decode_sas :: "bytes \<Rightarrow> nat \<Rightarrow> py_error + string" where
  "decode_sas data idx =
     (case decode_ascii (slice data idx (idx + 12)) of
        Inl e \<Rightarrow> Inl e
      | Inr s \<Rightarrow>
          (let sas_id = strip s;
               sas_nonce = int_from_bytes (slice data (idx + 12) (idx + 16)) in
           case decode_ascii (slice data (idx + 16) (idx + 80)) of
             Inl e \<Rightarrow> Inl e
           | Inr sas_token \<Rightarrow> Inr (sas_id @ '':'' @ py_str sas_nonce @ '':'' @ sas_token)))"

text \<open>
  What \<open>parse_response\<close> returns: the dictionary of an error reply, the last byte of a
  validation reply, a text, or \<open>None\<close> when no branch returns.
\<close>

datatype response =
    ErrorReply string
  | LastByte nat
  | Text string
  | NoValue

text \<open>The loop \<open>for i in range(4, 4+80*N, 80)\<close>: \<open>N\<close> rounds, from offset \<open>i\<close>.\<close>

fun decode_sas_loop :: "bytes \<Rightarrow> nat \<Rightarrow> nat \<Rightarrow> string \<Rightarrow> py_error + string" where
  "decode_sas_loop data i 0 sas_list = Inr sas_list"
| "decode_sas_loop data i (Suc k) sas_list =
     (case decode_sas data i of
        Inl e \<Rightarrow> Inl e
      | Inr sas \<Rightarrow> decode_sas_loop data (i + 80) k (sas_list @ sas @ ''+''))"

definition parse_response :: "bytes \<Rightarrow> py_error + response" where
  "parse_response data =
     (case unpack_H (slice data 0 2) of
        Inl e \<Rightarrow> Inl e
      | Inr message_type \<Rightarrow>
          if MESSAGE_TYPES ''error'' = Some message_type then
            (case unpack_H (slice data 2 4) of
               Inl e \<Rightarrow> Inl e
             | Inr error_code \<Rightarrow>
                 (case ERROR_CODES error_code of
                    None \<Rightarrow> Inl KeyError
                  | Some name \<Rightarrow> Inr (ErrorReply name)))
          else if map_option Suc (MESSAGE_TYPES ''itv'') = Some message_type
                \<or> map_option Suc (MESSAGE_TYPES ''gtv'') = Some message_type then
            (case data of
               [] \<Rightarrow> Inl IndexError
             | _ # _ \<Rightarrow> Inr (LastByte (unat (last data))))
          else if map_option Suc (MESSAGE_TYPES ''gtr'') = Some message_type then
            (let N = int_from_bytes (slice data 2 4) in
             case decode_sas_loop data 4 N [] of
               Inl e \<Rightarrow> Inl e
             | Inr sas_list \<Rightarrow>
                 (case decode_ascii (drop (4 + 80 * N) data) of
                    Inl e \<Rightarrow> Inl e
                  | Inr token \<Rightarrow> Inr (Text (sas_list @ token))))
          else if message_type < 5 then
            (case decode_sas data 2 of
               Inl e \<Rightarrow> Inl e
             | Inr sas \<Rightarrow> Inr (Text sas))
          else Inr NoValue)"

section \<open>Bytes, characters and splitting\<close>

lemma unat_byte_of_int: "unat (of_int k :: byte) = nat (k mod 256)"
proof -
  have "uint (word_of_int k :: byte) = k mod 2 ^ 8"
    by (simp add: uint_word_of_int)
  then show ?thesis
    by (simp add: unat_eq_nat_uint)
qed

lemma unat_byte_of_char: "unat (byte_of_char c) = of_char c"
proof -
  have "(of_char c :: nat) < 256" by (rule nat_of_char_less_256)
  then show ?thesis
    by (simp add: byte_of_char_def unat_of_nat)
qed

lemma char_of_byte_of_char: "char_of_byte (byte_of_char c) = c"
  by (simp add: char_of_byte_def unat_byte_of_char)

lemma decode_encode_ascii:
  assumes "list_all is_ascii s"
  shows "encode_ascii s = Inr (map byte_of_char s)"
    and "decode_ascii (map byte_of_char s) = Inr s"
proof -
  show "encode_ascii s = Inr (map byte_of_char s)"
    using assms by (simp add: encode_ascii_def)
  have "list_all (\<lambda>x. unat x < 128) (map byte_of_char s)"
    using assms by (simp add: list_all_iff is_ascii_def unat_byte_of_char)
  moreover have "map char_of_byte (map byte_of_char s) = s"
    by (simp add: char_of_byte_of_char comp_def)
  ultimately show "decode_ascii (map byte_of_char s) = Inr s"
    by (simp add: decode_ascii_def)
qed

lemma split_on_no_sep: "sep \<notin> set a \<Longrightarrow> split_on sep a = [a]"
  by (induction a) auto

lemma split_on_append: "sep \<notin> set a \<Longrightarrow> split_on sep (a @ sep # rest) = a # split_on sep rest"
  by (induction a) auto

lemma split_on_three:
  assumes "sep \<notin> set a" "sep \<notin> set b" "sep \<notin> set c"
  shows "split_on sep (a @ sep # b @ sep # c) = [a, b, c]"
  using assms by (simp add: split_on_append split_on_no_sep)

section \<open>Big-endian integers\<close>

lemma be4:
  fixes m :: int
  assumes "0 \<le> m" "m < 4294967296"
  shows "((m div 16777216 mod 256 * 256 + m div 65536 mod 256) * 256 + m div 256 mod 256) * 256
           + m mod 256 = m"
proof -
  define a where "a = m div 256"
  define b where "b = a div 256"
  define c where "c = b div 256"
  have b: "m div 65536 = b"
    unfolding b_def a_def by (simp add: zdiv_zmult2_eq [symmetric])
  have c: "m div 16777216 = c"
    unfolding c_def b_def a_def by (simp add: zdiv_zmult2_eq [symmetric])
  have "0 \<le> c" "c < 256"
    using assms c by auto
  then have c256: "c mod 256 = c" by simp
  have 1: "c * 256 + b mod 256 = b" unfolding c_def by simp
  have 2: "b * 256 + a mod 256 = a" unfolding b_def by simp
  have 3: "a * 256 + m mod 256 = m" unfolding a_def by simp
  show ?thesis
    unfolding b c c256 a_def [symmetric] 1 2 3 ..
qed

lemma int_from_bytes_4:
  "int_from_bytes [a, b, c, d] = ((unat a * 256 + unat b) * 256 + unat c) * 256 + unat d"
  by (simp add: int_from_bytes_def)

lemma int_unat_byte_of_int: "int (unat (of_int k :: byte)) = k mod 256"
  by (simp add: unat_byte_of_int)

lemma int_from_bytes_be4:
  assumes "0 \<le> n" "n < 4294967296"
  shows "int (int_from_bytes
           [of_int (n div 16777216), of_int (n div 65536), of_int (n div 256), of_int n]) = n"
proof -
  have "int (int_from_bytes
           [of_int (n div 16777216), of_int (n div 65536), of_int (n div 256), of_int n])
        = ((n div 16777216 mod 256 * 256 + n div 65536 mod 256) * 256 + n div 256 mod 256) * 256
           + n mod 256"
    unfolding int_from_bytes_4
    by (simp only: of_nat_add of_nat_mult int_unat_byte_of_int of_nat_numeral)
  also have "\<dots> = n"
    by (rule be4 [OF assms])
  finally show ?thesis .
qed

lemma pack_I_in_range:
  assumes "0 \<le> n" "n < 4294967296"
  shows "pack_I n = Inr [of_int (n div 16777216), of_int (n div 65536), of_int (n div 256), of_int n]"
  using assms by (simp add: pack_I_def)

section \<open>The identifier field\<close>

lemma byte_of_space: "byte_of_char (CHR '' '') = 32"
  by (simp add: byte_of_char_def)

lemma is_ascii_ljust: "list_all is_ascii s \<Longrightarrow> list_all is_ascii (ljust 12 s)"
  by (auto simp: ljust_def is_ascii_def list_all_iff)

lemma pack_s_ljust:
  "pack_s 12 (map byte_of_char (ljust 12 s))
     = map byte_of_char (take 12 s) @ replicate (12 - length s) 32"
  by (simp add: pack_s_def ljust_def byte_of_space take_map)

lemma itr_body:
  assumes "list_all is_ascii user_id" "0 \<le> nonce" "nonce < 4294967296"
  shows "create_individual_token_request_message user_id nonce
     = Inr (map byte_of_char (take 12 user_id) @ replicate (12 - length user_id) 32
            @ [of_int (nonce div 16777216), of_int (nonce div 65536),
               of_int (nonce div 256), of_int nonce])"
proof -
  have "encode_ascii (ljust 12 user_id) = Inr (map byte_of_char (ljust 12 user_id))"
    using assms(1) by (simp add: decode_encode_ascii(1) is_ascii_ljust)
  then show ?thesis
    using assms(2,3)
    by (simp add: create_individual_token_request_message_def pack_I_in_range pack_s_ljust)
qed

text \<open>
  C1. For an ASCII identifier of at most 12 characters and a nonce in [0, 2^32) the
  individual-token-request body is the identifier, padded on the right with spaces to 12
  bytes, followed by the four bytes of the nonce, most significant first: 16 bytes, and
  the four bytes read back as a big-endian number are the nonce.
\<close>

theorem itr_encoding:
  assumes "length user_id \<le> 12" "list_all is_ascii user_id" "0 \<le> nonce" "nonce < 4294967296"
  shows "\<exists>nb. create_individual_token_request_message user_id nonce
             = Inr (map byte_of_char (user_id @ replicate (12 - length user_id) (CHR '' '')) @ nb)
           \<and> nb = [of_int (nonce div 16777216), of_int (nonce div 65536),
                   of_int (nonce div 256), of_int nonce]
           \<and> int (int_from_bytes nb) = nonce
           \<and> length (map byte_of_char (user_id @ replicate (12 - length user_id) (CHR '' '')) @ nb) = 16"
  using assms(1) itr_body [OF assms(2-4)] int_from_bytes_be4 [OF assms(3,4)]
  by (simp add: byte_of_space)

theorem itr_encoding_alice:
  "create_individual_token_request_message ''alice'' 42
     = Inr [97, 108, 105, 99, 101, 32, 32, 32, 32, 32, 32, 32, 0, 0, 0, 42]"
proof -
  have h: "length ''alice'' \<le> 12" "list_all is_ascii ''alice''"
    by (simp_all add: is_ascii_def)
  have r: "replicate (12 - length ''alice'') (CHR '' '') = ''       ''"
    by code_simp
  from itr_encoding [OF h, of 42] show ?thesis
    unfolding r by (simp add: byte_of_char_def)
qed

section \<open>Identifiers longer than the field\<close>

text \<open>
  C4 (as the code has it). An ASCII identifier longer than 12 characters does not make
  the individual-token-request encoder fail: with a nonce in [0, 2^32) it returns the
  16-byte body made of the first 12 characters of the identifier and the four nonce
  bytes. The \<open>12s\<close> field of \<open>struct.pack\<close> cuts the identifier silently.
\<close>

theorem itr_long_identifier_cut:
  assumes "12 < length user_id" "list_all is_ascii user_id" "0 \<le> nonce" "nonce < 4294967296"
  shows "create_individual_token_request_message user_id nonce
           = Inr (map byte_of_char (take 12 user_id)
                  @ [of_int (nonce div 16777216), of_int (nonce div 65536),
                     of_int (nonce div 256), of_int nonce])"
  using assms(1) itr_body [OF assms(2-4)] by simp

theorem itr_long_identifier_cut_witness:
  "create_individual_token_request_message ''abcdefghijklm'' 258
     = Inr [97, 98, 99, 100, 101, 102, 103, 104, 105, 106, 107, 108, 0, 0, 1, 2]"
proof -
  have h: "12 < length ''abcdefghijklm''" "list_all is_ascii ''abcdefghijklm''"
    by (simp_all add: is_ascii_def)
  from itr_long_identifier_cut [OF h, of 258] show ?thesis
    by (simp add: byte_of_char_def)
qed

theorem itr_long_identifier_counterexample:
  "create_individual_token_request_message ''abcdefghijklmnop'' 1
     = Inr [97, 98, 99, 100, 101, 102, 103, 104, 105, 106, 107, 108, 0, 0, 0, 1]"
  by code_simp

section \<open>Replies: header and error code\<close>

lemma int_from_bytes_2: "int_from_bytes [hi, lo] = unat hi * 256 + unat lo"
  by (simp add: int_from_bytes_def)

lemma unpack_H_short: "length b < 2 \<Longrightarrow> unpack_H b = Inl StructError"
  by (simp add: unpack_H_def)

lemma unpack_H_2: "unpack_H [hi, lo] = Inr (unat hi * 256 + unat lo)"
  by (simp add: unpack_H_def int_from_bytes_2)

lemma slice_header: "slice (hi # lo # rest) 0 2 = [hi, lo]"
  by (simp add: slice_def)

lemma slice_2_4: "slice (hi # lo # rest) 2 4 = take 2 rest"
  by (simp add: slice_def)

lemma message_type_codes:
  "MESSAGE_TYPES ''error'' = Some 256"
  "map_option Suc (MESSAGE_TYPES ''itv'') = Some 4"
  "map_option Suc (MESSAGE_TYPES ''gtv'') = Some 8"
  "map_option Suc (MESSAGE_TYPES ''gtr'') = Some 6"
  by (simp_all add: MESSAGE_TYPES_def)

lemma parse_response_header:
  "parse_response (hi # lo # rest) =
     (let message_type = unat hi * 256 + unat lo in
      if message_type = 256 then
        (case unpack_H (take 2 rest) of
           Inl e \<Rightarrow> Inl e
         | Inr error_code \<Rightarrow>
             (case ERROR_CODES error_code of
                None \<Rightarrow> Inl KeyError
              | Some name \<Rightarrow> Inr (ErrorReply name)))
      else if message_type = 4 \<or> message_type = 8 then
        Inr (LastByte (unat (last (hi # lo # rest))))
      else if message_type = 6 then
        (let N = int_from_bytes (take 2 rest) in
         case decode_sas_loop (hi # lo # rest) 4 N [] of
           Inl e \<Rightarrow> Inl e
         | Inr sas_list \<Rightarrow>
             (case decode_ascii (drop (4 + 80 * N) (hi # lo # rest)) of
                Inl e \<Rightarrow> Inl e
              | Inr token \<Rightarrow> Inr (Text (sas_list @ token))))
      else if message_type < 5 then
        (case decode_sas (hi # lo # rest) 2 of
           Inl e \<Rightarrow> Inl e
         | Inr sas \<Rightarrow> Inr (Text sas))
      else Inr NoValue)"
  unfolding parse_response_def slice_header slice_2_4 unpack_H_2 message_type_codes
  by (simp add: Let_def eq_commute [of 256] eq_commute [of 4] eq_commute [of 8] eq_commute [of 6])

lemma error_codes_table:
  "ERROR_CODES (Suc 0) = Some ''INVALID_MESSAGE_CODE''"
  "ERROR_CODES 2 = Some ''INCORRECT_MESSAGE_LENGTH''"
  "ERROR_CODES 3 = Some ''INVALID_PARAMETER''"
  "ERROR_CODES 4 = Some ''INVALID_SINGLE_TOKEN''"
  "ERROR_CODES 5 = Some ''ASCII_DECODE_ERROR''"
  "code < 1 \<or> 5 < code \<Longrightarrow> ERROR_CODES code = None"
  by (auto simp: ERROR_CODES_def)

text \<open>
  C6. A reply whose type code is 256 (bytes 01 00) and that holds the two bytes of the
  error code is decoded through the table: the codes 1 to 5 give their five names, and
  any other code makes the decoder fail (the table lookup raises \<open>KeyError\<close>).
\<close>

theorem parse_error_reply:
  fixes hi lo :: byte
  defines "code \<equiv> unat hi * 256 + unat lo"
  shows "(code = 1 \<longrightarrow> parse_response (1 # 0 # hi # lo # rest) = Inr (ErrorReply ''INVALID_MESSAGE_CODE''))
       \<and> (code = 2 \<longrightarrow> parse_response (1 # 0 # hi # lo # rest) = Inr (ErrorReply ''INCORRECT_MESSAGE_LENGTH''))
       \<and> (code = 3 \<longrightarrow> parse_response (1 # 0 # hi # lo # rest) = Inr (ErrorReply ''INVALID_PARAMETER''))
       \<and> (code = 4 \<longrightarrow> parse_response (1 # 0 # hi # lo # rest) = Inr (ErrorReply ''INVALID_SINGLE_TOKEN''))
       \<and> (code = 5 \<longrightarrow> parse_response (1 # 0 # hi # lo # rest) = Inr (ErrorReply ''ASCII_DECODE_ERROR''))
       \<and> (code < 1 \<or> 5 < code \<longrightarrow> parse_response (1 # 0 # hi # lo # rest) = Inl KeyError)"
proof -
  have "parse_response (1 # 0 # hi # lo # rest) =
          (case ERROR_CODES code of None \<Rightarrow> Inl KeyError | Some name \<Rightarrow> Inr (ErrorReply name))"
    unfolding parse_response_header code_def by (simp add: unpack_H_2)
  then show ?thesis
    using error_codes_table(6) [of code] by (simp add: error_codes_table(1-5))
qed

theorem parse_error_reply_witness:
  "parse_response [1, 0, 0, 3] = Inr (ErrorReply ''INVALID_PARAMETER'')
   \<and> parse_response [1, 0, 0, 6] = Inl KeyError
   \<and> parse_response [1, 0, 1, 2] = Inl KeyError"
  using parse_error_reply [of 0 3 "[]"] parse_error_reply [of 0 6 "[]"]
    parse_error_reply [of 1 2 "[]"]
  by simp

text \<open>
  C10. A reply of fewer than 2 bytes, and an error reply (bytes 01 00) of fewer than 4
  bytes, make \<open>struct.unpack\<close> raise: the parser returns no result.
\<close>

theorem parse_response_short_reply:
  assumes "length data < 2 \<or> (take 2 data = [1, 0] \<and> length data < 4)"
  shows "parse_response data = Inl StructError"
  using assms
proof
  assume "length data < 2"
  then have "unpack_H (slice data 0 2) = Inl StructError"
    by (simp add: unpack_H_short slice_def)
  then show ?thesis
    by (simp add: parse_response_def)
next
  assume a: "take 2 data = [1, 0] \<and> length data < 4"
  then obtain rest where d: "data = 1 # 0 # rest"
    by (cases data; cases "tl data") auto
  with a have "length (take 2 rest) < 2" by simp
  then have "unpack_H (take 2 rest) = Inl StructError"
    by (rule unpack_H_short)
  then show ?thesis
    unfolding d parse_response_header by simp
qed

theorem parse_response_short_reply_witness:
  "parse_response [] = Inl StructError
   \<and> parse_response [7] = Inl StructError
   \<and> parse_response [1, 0] = Inl StructError
   \<and> parse_response [1, 0, 0] = Inl StructError"
  using parse_response_short_reply [of "[]"] parse_response_short_reply [of "[7]"]
    parse_response_short_reply [of "[1, 0]"] parse_response_short_reply [of "[1, 0, 0]"]
  by simp

text \<open>
  C9 (as the code has it). A reply whose type code is none of 256, 4, 8 and 6 and is
  not below 5 falls through every branch of the parser: it returns \<open>None\<close>, no decoded
  value and no failure.
\<close>

theorem parse_response_no_branch:
  fixes hi lo :: byte
  defines "message_type \<equiv> unat hi * 256 + unat lo"
  assumes "message_type \<noteq> 256" "message_type \<noteq> 4" "message_type \<noteq> 8"
    "message_type \<noteq> 6" "\<not> message_type < 5"
  shows "parse_response (hi # lo # rest) = Inr NoValue"
  using assms unfolding parse_response_header by (simp add: Let_def)

theorem parse_response_no_branch_witness:
  "parse_response [0, 9, 1, 2] = Inr NoValue \<and> parse_response [1, 1] = Inr NoValue"
  using parse_response_no_branch [of 0 9 "[1, 2]"] parse_response_no_branch [of 1 1 "[]"]
  by simp

theorem parse_response_unknown_type_counterexample:
  "parse_response [0, 5] = Inr NoValue \<and> parse_response [0, 7, 1] = Inr NoValue"
  by code_simp

section \<open>Decoding a statement from a short buffer\<close>

lemma decode_ascii_iff:
  "decode_ascii b = (if list_all (\<lambda>x. unat x < 128) b then Inr (map char_of_byte b) else Inl UnicodeDecodeError)"
  by (simp add: decode_ascii_def)

lemma slice_to_end: "length xs \<le> j \<Longrightarrow> slice xs i j = drop i xs"
  by (simp add: slice_def)

text \<open>
  C5 (as the code has it). When fewer than 80 bytes remain from the offset, the SAS
  decoder does not fail for that: the slices stop at the end of the buffer, the fields are
  decoded from the bytes that are there (the token from all bytes after offset + 16), and
  a SAS text is returned. The only failure is \<open>UnicodeDecodeError\<close>, on a byte from 128
  on in the identifier or token bytes.
\<close>

theorem decode_sas_short_buffer:
  assumes "length data < idx + 80"
  shows "decode_sas data idx =
     (if list_all (\<lambda>x. unat x < 128) (slice data idx (idx + 12) @ drop (idx + 16) data)
      then Inr (strip (map char_of_byte (slice data idx (idx + 12)))
                @ '':'' @ py_str (int_from_bytes (slice data (idx + 12) (idx + 16)))
                @ '':'' @ map char_of_byte (drop (idx + 16) data))
      else Inl UnicodeDecodeError)"
proof -
  have "slice data (idx + 16) (idx + 80) = drop (idx + 16) data"
    using assms by (simp add: slice_to_end)
  then show ?thesis
    by (simp add: decode_sas_def decode_ascii_iff Let_def)
qed

theorem decode_sas_short_buffer_witness:
  "decode_sas [0, 2, 97, 98] 2 = Inr ''ab:0:''
   \<and> decode_sas [97, 200] 0 = Inl UnicodeDecodeError"
proof -
  have h: "length [0, 2, 97, 98 :: byte] < 2 + 80" "length [97, 200 :: byte] < 0 + 80"
    by simp_all
  show ?thesis
    unfolding decode_sas_short_buffer [OF h(1)] decode_sas_short_buffer [OF h(2)]
    by code_simp
qed

theorem decode_sas_short_buffer_counterexample:
  "decode_sas [97, 108, 105, 99, 101] 0 = Inr ''alice:0:'' \<and> decode_sas [] 0 = Inr '':0:''"
  by code_simp

section \<open>Decimal numbers: \<open>int(str(n))\<close>\<close>

lemma of_char_digit_char: "d < 10 \<Longrightarrow> (of_char (digit_char d) :: nat) = 48 + d"
  by (simp add: digit_char_def)

lemma is_digit_digit_char: "d < 10 \<Longrightarrow> is_digit (digit_char d)"
  by (simp add: is_digit_def of_char_digit_char)

lemma digit_val_digit_char: "d < 10 \<Longrightarrow> digit_val (digit_char d) = d"
  by (simp add: digit_val_def of_char_digit_char)

lemma is_digit_not_others:
  assumes "is_digit c"
  shows "\<not> is_int_space c" "\<not> is_space c" "c \<noteq> CHR ''-''" "c \<noteq> CHR ''+''"
    "c \<noteq> CHR '':''" "c \<noteq> CHR ''_''" "is_ascii c"
  using assms by (auto simp: is_digit_def is_int_space_def is_space_def is_ascii_def Let_def)

lemma py_str_digits: "list_all is_digit (py_str n)"
proof (induction n rule: py_str.induct)
  case (1 n)
  show ?case
  proof (cases "n < 10")
    case True
    then show ?thesis
      by (subst py_str.simps) (simp add: is_digit_digit_char)
  next
    case False
    then have "list_all is_digit (py_str (n div 10))"
      using "1.IH" by simp
    with False show ?thesis
      by (subst py_str.simps) (simp add: is_digit_digit_char)
  qed
qed

lemma py_str_not_Nil: "py_str n \<noteq> []"
  by (subst py_str.simps) simp

lemma decimal_value_py_str: "decimal_value 0 (py_str n) = n"
proof (induction n rule: py_str.induct)
  case (1 n)
  show ?case
  proof (cases "n < 10")
    case True
    then show ?thesis
      by (subst py_str.simps) (simp add: decimal_value_def digit_val_digit_char)
  next
    case False
    then have "decimal_value 0 (py_str (n div 10)) = n div 10"
      using "1.IH" by simp
    with False show ?thesis
      by (subst py_str.simps) (simp add: decimal_value_def digit_val_digit_char)
  qed
qed

lemma py_digits_all_digits:
  "list_all is_digit cs \<Longrightarrow> py_digits acc cs = Some (decimal_value acc cs)"
proof (induction acc cs rule: py_digits.induct)
  case (1 acc)
  then show ?case by (simp add: decimal_value_def)
next
  case (2 acc c)
  then show ?case by (simp add: decimal_value_def)
next
  case (3 acc c d ds)
  then show ?case
    by (simp add: decimal_value_def is_digit_not_others(6))
qed

lemma py_unsigned_all_digits:
  assumes "list_all is_digit s" "s \<noteq> []"
  shows "py_unsigned s = Some (decimal_value 0 s)"
proof -
  from assms(2) obtain d ds where s: "s = d # ds"
    by (cases s) auto
  with assms(1) have "is_digit d" "list_all is_digit ds"
    by simp_all
  then show ?thesis
    by (simp add: s py_unsigned_def py_digits_all_digits decimal_value_def)
qed

lemma dropWhile_ends:
  assumes "s \<noteq> []" "\<not> P (hd s)" "\<not> P (last s)"
  shows "rev (dropWhile P (rev (dropWhile P s))) = s"
proof -
  have 1: "dropWhile P s = s"
    using assms(1,2) by (cases s) auto
  have "rev s \<noteq> []" "\<not> P (hd (rev s))"
    using assms(1,3) by (simp_all add: hd_rev)
  then have "dropWhile P (rev s) = rev s"
    by (cases "rev s") auto
  with 1 show ?thesis by simp
qed

lemma py_int_all_digits:
  assumes "list_all is_digit s" "s \<noteq> []"
  shows "py_int s = Inr (int (decimal_value 0 s))"
proof -
  have d: "is_digit (hd s)" "is_digit (last s)"
    using assms by (simp_all add: list_all_iff)
  have t: "rev (dropWhile is_int_space (rev (dropWhile is_int_space s))) = s"
    using assms(2) d by (intro dropWhile_ends is_digit_not_others(1))
  from assms(2) obtain c cs where s: "s = c # cs"
    by (cases s) auto
  with d(1) have c: "c \<noteq> CHR ''-''" "c \<noteq> CHR ''+''"
    by (auto dest: is_digit_not_others)
  have "py_unsigned (c # cs) = Some (decimal_value 0 s)"
    using py_unsigned_all_digits [OF assms] s by simp
  then show ?thesis
    unfolding py_int_def t by (simp add: s c Let_def)
qed

lemma py_int_py_str: "py_int (py_str n) = Inr (int n)"
  by (simp add: py_int_all_digits py_str_digits py_str_not_Nil decimal_value_py_str)

lemma colon_notin_py_str: "CHR '':'' \<notin> set (py_str n)"
  using py_str_digits [of n] by (auto simp: list_all_iff dest: is_digit_not_others(5))

section \<open>The body of one statement\<close>

lemma length_pack_s: "length (pack_s n b) = n"
  by (simp add: pack_s_def)

lemma pack_s_map: "pack_s n (map byte_of_char s) = map byte_of_char (take n s) @ replicate (n - length s) 0"
  by (simp add: pack_s_def take_map)

lemma itv_body:
  assumes "CHR '':'' \<notin> set user_id" "CHR '':'' \<notin> set nonce_text" "CHR '':'' \<notin> set token"
    and "list_all is_ascii user_id"
    and "py_int nonce_text = Inr n" "0 \<le> n" "n < 4294967296"
  shows "create_individual_token_validation_message (user_id @ '':'' @ nonce_text @ '':'' @ token)
     = (if list_all is_ascii token
        then Inr (map byte_of_char (take 12 user_id) @ replicate (12 - length user_id) 32
                  @ [of_int (n div 16777216), of_int (n div 65536), of_int (n div 256), of_int n]
                  @ map byte_of_char (take 64 token) @ replicate (64 - length token) 0)
        else Inl UnicodeEncodeError)"
proof -
  have s: "split_on (CHR '':'') (user_id @ '':'' @ nonce_text @ '':'' @ token)
             = [user_id, nonce_text, token]"
    using split_on_three [OF assms(1-3)] by simp
  have u: "encode_ascii (ljust 12 user_id) = Inr (map byte_of_char (ljust 12 user_id))"
    using assms(4) by (simp add: decode_encode_ascii(1) is_ascii_ljust)
  have k: "pack_s 64 (map byte_of_char token)
             = map byte_of_char (take 64 token) @ replicate (64 - length token) 0"
    by (rule pack_s_map)
  show ?thesis
  proof (cases "list_all is_ascii token")
    case True
    then have t: "encode_ascii token = Inr (map byte_of_char token)"
      by (simp add: encode_ascii_def)
    show ?thesis
      unfolding create_individual_token_validation_message_def s
      by (simp add: assms(5) u t True pack_I_in_range [OF assms(6,7)] pack_s_ljust k)
  next
    case False
    then have t: "encode_ascii token = Inl UnicodeEncodeError"
      by (simp add: encode_ascii_def)
    show ?thesis
      unfolding create_individual_token_validation_message_def s
      by (simp add: assms(5) u t False)
  qed
qed

lemma itv_length:
  assumes "create_individual_token_validation_message sas = Inr b"
  shows "length b = 80"
proof -
  have p: "pack_I n = Inr nb \<Longrightarrow> length nb = 4" for n nb
    by (auto simp: pack_I_def split: if_splits)
  show ?thesis
    using assms unfolding create_individual_token_validation_message_def
    by (auto simp: length_pack_s split: list.splits sum.splits dest!: p)
qed

text \<open>
  C8 (as the code has it). For a SAS text \<open>id:nonce:token\<close> with an ASCII identifier and
  a nonce that \<open>int\<close> reads as a number in [0, 2^32), the individual-token-validation
  encoder does not check the length of the token: an ASCII token of any length gives an
  80-byte body, where a token shorter than 64 is filled with NUL bytes and a longer one is
  cut after 64 bytes. Only a token with a character from 128 on fails, with
  \<open>UnicodeEncodeError\<close>.
\<close>

theorem itv_token_filled_or_cut:
  assumes "CHR '':'' \<notin> set user_id" "CHR '':'' \<notin> set nonce_text" "CHR '':'' \<notin> set token"
    and "list_all is_ascii user_id"
    and "py_int nonce_text = Inr n" "0 \<le> n" "n < 4294967296"
  shows "create_individual_token_validation_message (user_id @ '':'' @ nonce_text @ '':'' @ token)
     = (if list_all is_ascii token
        then Inr (map byte_of_char (take 12 user_id) @ replicate (12 - length user_id) 32
                  @ [of_int (n div 16777216), of_int (n div 65536), of_int (n div 256), of_int n]
                  @ map byte_of_char (take 64 token) @ replicate (64 - length token) 0)
        else Inl UnicodeEncodeError)
     \<and> length (map byte_of_char (take 12 user_id) @ replicate (12 - length user_id) 32
                  @ [of_int (n div 16777216), of_int (n div 65536), of_int (n div 256), of_int n :: byte]
                  @ map byte_of_char (take 64 token) @ replicate (64 - length token) 0) = 80"
  using itv_body [OF assms] by simp

theorem itv_token_filled_or_cut_witness:
  "create_individual_token_validation_message ''bob:258:tok''
     = Inr ([98, 111, 98] @ replicate 9 32 @ [0, 0, 1, 2] @ [116, 111, 107] @ replicate 61 0)"
proof -
  have h: "CHR '':'' \<notin> set ''bob''" "CHR '':'' \<notin> set ''258''" "CHR '':'' \<notin> set ''tok''"
    "list_all is_ascii ''bob''" "py_int ''258'' = Inr 258" "(0::int) \<le> 258" "(258::int) < 4294967296"
    by code_simp+
  have a: "list_all is_ascii ''tok''"
    by code_simp
  have "''bob:258:tok'' = ''bob'' @ '':'' @ ''258'' @ '':'' @ ''tok''"
    by simp
  then show ?thesis
    using itv_token_filled_or_cut [OF h] a
    by (simp add: byte_of_char_def)
qed

theorem itv_token_counterexample:
  "create_individual_token_validation_message ''a:1:xyz''
     = Inr (97 # replicate 11 32 @ [0, 0, 0, 1] @ [120, 121, 122] @ replicate 61 0)
   \<and> create_individual_token_validation_message (''a:1:'' @ replicate 64 (CHR ''x'') @ ''yz'')
     = Inr (97 # replicate 11 32 @ [0, 0, 0, 1] @ replicate 64 120)"
  by code_simp

section \<open>Group requests\<close>

lemma append_sas_bodies_all:
  "list_all (\<lambda>sas. \<not> isl (create_individual_token_validation_message sas)) sas_list \<Longrightarrow>
   append_sas_bodies data sas_list
     = Inr (data @ concat (map (\<lambda>sas. projr (create_individual_token_validation_message sas)) sas_list))"
proof (induction sas_list arbitrary: data)
  case Nil
  then show ?case by simp
next
  case (Cons sas sas_list)
  then obtain b where b: "create_individual_token_validation_message sas = Inr b"
    by (cases "create_individual_token_validation_message sas") auto
  with Cons show ?case by simp
qed

lemma length_concat_bodies:
  "list_all (\<lambda>sas. \<not> isl (create_individual_token_validation_message sas)) sas_list \<Longrightarrow>
   length (concat (map (\<lambda>sas. projr (create_individual_token_validation_message sas)) sas_list))
     = 80 * length sas_list"
proof (induction sas_list)
  case Nil
  then show ?case by simp
next
  case (Cons sas sas_list)
  then obtain b where b: "create_individual_token_validation_message sas = Inr b"
    by (cases "create_individual_token_validation_message sas") auto
  with Cons show ?case by (simp add: itv_length [OF b])
qed

lemma int_from_bytes_be2:
  assumes "0 \<le> n" "n < 65536"
  shows "int (int_from_bytes [of_int (n div 256), of_int n]) = n"
proof -
  have "0 \<le> n div 256" "n div 256 < 256"
    using assms by auto
  then have h: "n div 256 mod 256 = n div 256"
    by simp
  have "int (int_from_bytes [of_int (n div 256), of_int n]) = n div 256 mod 256 * 256 + n mod 256"
    unfolding int_from_bytes_2
    by (simp only: of_nat_add of_nat_mult int_unat_byte_of_int of_nat_numeral)
  also have "\<dots> = n"
    unfolding h by simp
  finally show ?thesis .
qed

lemma gtr_body:
  assumes "0 \<le> N" "N < 65536"
    and "list_all (\<lambda>sas. \<not> isl (create_individual_token_validation_message sas)) sas_list"
  shows "create_group_token_request_message N sas_list
     = Inr ([of_int (N div 256), of_int N]
            @ concat (map (\<lambda>sas. projr (create_individual_token_validation_message sas)) sas_list))"
proof -
  have "pack_H N = Inr [of_int (N div 256), of_int N]"
    using assms(1,2) by (simp add: pack_H_def)
  then show ?thesis
    by (simp add: create_group_token_request_message_def append_sas_bodies_all [OF assms(3)])
qed

text \<open>
  C3 (as the code has it). For a count \<open>N\<close> in [0, 65535] and a list of exactly \<open>N\<close>
  SAS strings that each encode, the group-token-request body is the 2-byte big-endian
  \<open>N\<close> followed by the \<open>N\<close> individual-token-validation bodies of the list, in order:
  2 + 80 * \<open>N\<close> bytes. The encoder writes \<open>N\<close> and goes through the list it is given.
\<close>

theorem gtr_encoding:
  assumes "0 \<le> N" "N < 65536" "int (length sas_list) = N"
    and "list_all (\<lambda>sas. \<not> isl (create_individual_token_validation_message sas)) sas_list"
  shows "\<exists>body. create_group_token_request_message N sas_list = Inr body
           \<and> body = [of_int (N div 256), of_int N]
                @ concat (map (\<lambda>sas. projr (create_individual_token_validation_message sas))
                            (take (nat N) sas_list))
           \<and> int (int_from_bytes (take 2 body)) = N
           \<and> length body = 2 + 80 * nat N"
proof -
  have t: "take (nat N) sas_list = sas_list" "length sas_list = nat N"
    using assms(3) by auto
  show ?thesis
    unfolding t(1)
    using gtr_body [OF assms(1,2,4)] int_from_bytes_be2 [OF assms(1,2)]
      length_concat_bodies [OF assms(4)] t(2)
    by simp
qed

theorem gtr_encoding_witness:
  "\<exists>body. create_group_token_request_message 2
             [''a:1:'' @ replicate 64 (CHR ''x''), ''b:2:'' @ replicate 64 (CHR ''y'')] = Inr body
     \<and> take 2 body = [0, 2] \<and> length body = 162"
proof -
  have h: "(0::int) \<le> 2" "(2::int) < 65536"
    "int (length [''a:1:'' @ replicate 64 (CHR ''x''), ''b:2:'' @ replicate 64 (CHR ''y'')]) = 2"
    "list_all (\<lambda>sas. \<not> isl (create_individual_token_validation_message sas))
       [''a:1:'' @ replicate 64 (CHR ''x''), ''b:2:'' @ replicate 64 (CHR ''y'')]"
    by code_simp+
  from gtr_encoding [OF h] show ?thesis
    by auto
qed

theorem gtr_count_counterexample:
  "create_group_token_request_message 1 [''a:1:x'', ''b:2:y'']
     = Inr ([0, 1] @ (97 # replicate 11 32 @ [0, 0, 0, 1] @ 120 # replicate 63 0)
                   @ (98 # replicate 11 32 @ [0, 0, 0, 2] @ 121 # replicate 63 0))
   \<and> create_individual_token_validation_message ''a:1:x''
     = Inr (97 # replicate 11 32 @ [0, 0, 0, 1] @ 120 # replicate 63 0)
   \<and> create_group_token_request_message 1 [''a:1:x'', ''b:2:y'']
     \<noteq> Inr ([0, 1] @ (97 # replicate 11 32 @ [0, 0, 0, 1] @ 120 # replicate 63 0))
   \<and> create_group_token_request_message 2 [''a:1:x'']
     = Inr ([0, 2] @ (97 # replicate 11 32 @ [0, 0, 0, 1] @ 120 # replicate 63 0))"
  by code_simp

section \<open>Group validation without a separator\<close>

text \<open>
  C7 (as the code has it). A GAS text without any \<open>+\<close> does not make the
  group-token-validation encoder fail: the split gives one part, which is taken as the
  group token, and no SAS. For an ASCII text the body is the count 00 00 followed by the
  text cut or NUL-filled to 64 bytes; a text with a character from 128 on fails with
  \<open>UnicodeEncodeError\<close>.
\<close>

theorem gtv_without_separator:
  assumes "CHR ''+'' \<notin> set gas"
  shows "create_group_token_validation_message gas
     = (if list_all is_ascii gas
        then Inr ([0, 0] @ map byte_of_char (take 64 gas) @ replicate (64 - length gas) 0)
        else Inl UnicodeEncodeError)"
proof -
  have s: "split_on (CHR ''+'') gas = [gas]"
    using assms by (rule split_on_no_sep)
  have k: "pack_s 64 (map byte_of_char gas)
             = map byte_of_char (take 64 gas) @ replicate (64 - length gas) 0"
    by (rule pack_s_map)
  show ?thesis
    unfolding create_group_token_validation_message_def s
    by (simp add: encode_ascii_def pack_h_def k)
qed

theorem gtv_without_separator_witness:
  "create_group_token_validation_message ''tok'' = Inr ([0, 0, 116, 111, 107] @ replicate 61 0)
   \<and> create_group_token_validation_message [CHR 0xE9] = Inl UnicodeEncodeError"
proof -
  have h: "CHR ''+'' \<notin> set ''tok''" "CHR ''+'' \<notin> set [CHR 0xE9]"
    by simp_all
  show ?thesis
    unfolding gtv_without_separator [OF h(1)] gtv_without_separator [OF h(2)]
    by code_simp
qed

theorem gtv_without_separator_counterexample:
  "create_group_token_validation_message ''abc'' = Inr ([0, 0, 97, 98, 99] @ replicate 61 0)
   \<and> create_group_token_validation_message [] = Inr (replicate 66 0)"
  by code_simp

section \<open>Round trip of a statement\<close>

lemma is_space_space: "is_space (CHR '' '')"
  by (simp add: is_space_def)

lemma strip_padded:
  assumes "s = [] \<or> (\<not> is_space (hd s) \<and> \<not> is_space (last s))"
  shows "strip (s @ replicate k (CHR '' '')) = s"
proof (cases "s = []")
  case True
  have "dropWhile is_space (replicate k (CHR '' '')) = []"
    by (simp add: is_space_space)
  with True show ?thesis
    by (simp add: strip_def)
next
  case False
  with assms have e: "\<not> is_space (hd s)" "\<not> is_space (last s)"
    by simp_all
  have 1: "dropWhile is_space (s @ replicate k (CHR '' '')) = s @ replicate k (CHR '' '')"
    using False e(1) by (cases s) auto
  have "dropWhile is_space (replicate k (CHR '' '') @ rev s) = dropWhile is_space (rev s)"
    by (rule dropWhile_append2) (simp add: is_space_space)
  also have "\<dots> = rev s"
    using False e(2) by (cases "rev s") (auto simp: hd_rev [symmetric])
  finally show ?thesis
    by (simp add: strip_def 1)
qed

lemma slice_fields:
  assumes "length a = 12" "length b = 4" "length c = 64"
  shows "slice (a @ b @ c) 0 (0 + 12) = a"
    and "slice (a @ b @ c) (0 + 12) (0 + 16) = b"
    and "slice (a @ b @ c) (0 + 16) (0 + 80) = c"
  using assms by (simp_all add: slice_def)

text \<open>
  C2 (as the code has it). For an ASCII identifier of at most 12 characters that has no
  white space at either end and no colon, a nonce in [0, 2^32) and an ASCII token of 64
  characters without a colon, encoding the SAS text \<open>id:nonce:token\<close> and decoding the
  80-byte body gives the same text back; the four nonce bytes of the body read back as the
  nonce.
\<close>

theorem sas_round_trip:
  assumes "length user_id \<le> 12" "list_all is_ascii user_id"
    and "user_id = [] \<or> (\<not> is_space (hd user_id) \<and> \<not> is_space (last user_id))"
    and "CHR '':'' \<notin> set user_id"
    and "nonce < 4294967296"
    and "length token = 64" "list_all is_ascii token" "CHR '':'' \<notin> set token"
  shows "\<exists>body. create_individual_token_validation_message
                   (user_id @ '':'' @ py_str nonce @ '':'' @ token) = Inr body
           \<and> length body = 80
           \<and> int_from_bytes (slice body 12 16) = nonce
           \<and> decode_sas body 0 = Inr (user_id @ '':'' @ py_str nonce @ '':'' @ token)"
proof -
  define n where "n = int nonce"
  define a where "a = map byte_of_char (user_id @ replicate (12 - length user_id) (CHR '' ''))"
  define b :: bytes where
    "b = [of_int (n div 16777216), of_int (n div 65536), of_int (n div 256), of_int n]"
  define c where "c = map byte_of_char token"
  have n: "0 \<le> n" "n < 4294967296"
    using assms(5) by (simp_all add: n_def)
  have len: "length a = 12" "length b = 4" "length c = 64"
    using assms(1,6) by (simp_all add: a_def b_def c_def)
  have "create_individual_token_validation_message
          (user_id @ '':'' @ py_str nonce @ '':'' @ token)
        = Inr (map byte_of_char (take 12 user_id) @ replicate (12 - length user_id) 32
               @ b @ map byte_of_char (take 64 token) @ replicate (64 - length token) 0)"
    using itv_body [OF assms(4) colon_notin_py_str assms(8) assms(2) _ n, of nonce]
      assms(7)
    by (simp add: py_int_py_str n_def b_def)
  then have enc: "create_individual_token_validation_message
          (user_id @ '':'' @ py_str nonce @ '':'' @ token) = Inr (a @ b @ c)"
    using assms(1,6) by (simp add: a_def c_def byte_of_space)
  have "int (int_from_bytes b) = n"
    unfolding b_def by (rule int_from_bytes_be4 [OF n])
  then have nb: "int_from_bytes b = nonce"
    by (simp add: n_def)
  have asc: "list_all is_ascii (user_id @ replicate (12 - length user_id) (CHR '' ''))"
    using is_ascii_ljust [OF assms(2)] by (simp add: ljust_def)
  have da: "decode_ascii a = Inr (user_id @ replicate (12 - length user_id) (CHR '' ''))"
    unfolding a_def by (rule decode_encode_ascii(2) [OF asc])
  have dc: "decode_ascii c = Inr token"
    unfolding c_def by (rule decode_encode_ascii(2) [OF assms(7)])
  have dec: "decode_sas (a @ b @ c) 0 = Inr (user_id @ '':'' @ py_str nonce @ '':'' @ token)"
    unfolding decode_sas_def slice_fields [OF len]
    by (simp add: da dc nb strip_padded [OF assms(3)])
  have "slice (a @ b @ c) 12 16 = b"
    using slice_fields(2) [OF len] by simp
  with enc dec nb len show ?thesis
    by simp
qed

theorem sas_round_trip_alice:
  "\<exists>body. create_individual_token_validation_message (''alice:7:'' @ replicate 64 (CHR ''x''))
             = Inr body
     \<and> length body = 80
     \<and> decode_sas body 0 = Inr (''alice:7:'' @ replicate 64 (CHR ''x''))"
proof -
  have h: "length ''alice'' \<le> 12" "list_all is_ascii ''alice''"
    "''alice'' = [] \<or> (\<not> is_space (hd ''alice'') \<and> \<not> is_space (last ''alice''))"
    "CHR '':'' \<notin> set ''alice''" "(7::nat) < 4294967296"
    "length (replicate 64 (CHR ''x'')) = 64" "list_all is_ascii (replicate 64 (CHR ''x''))"
    "CHR '':'' \<notin> set (replicate 64 (CHR ''x''))"
    by (simp_all add: is_ascii_def is_space_def list_all_iff)
  have p: "py_str 7 = ''7''"
    by code_simp
  from sas_round_trip [OF h] show ?thesis
    unfolding p by auto
qed

theorem sas_round_trip_counterexample:
  "create_individual_token_validation_message (''ab :7:'' @ replicate 64 (CHR ''x''))
     = Inr ([97, 98] @ replicate 10 32 @ [0, 0, 0, 7] @ replicate 64 120)
   \<and> decode_sas ([97, 98] @ replicate 10 32 @ [0, 0, 0, 7] @ replicate 64 120) 0
     = Inr (''ab:7:'' @ replicate 64 (CHR ''x''))
   \<and> create_individual_token_validation_message ('' ab:7:'' @ replicate 64 (CHR ''x''))
     = Inr ([32, 97, 98] @ replicate 9 32 @ [0, 0, 0, 7] @ replicate 64 120)
   \<and> decode_sas ([32, 97, 98] @ replicate 9 32 @ [0, 0, 0, 7] @ replicate 64 120) 0
     = Inr (''ab:7:'' @ replicate 64 (CHR ''x''))"
  by code_simp

end
